theory Spec2Isabelle
  imports Main
begin

section \<open>The account ledger of ATM.py\<close>

text \<open>
  The development embeds the core of \<^verbatim>\<open>ATM.py\<close>: the dataclass \<^verbatim>\<open>User\<close> with its
  loader and writer, and the class \<^verbatim>\<open>BankService\<close>.  The Qt pages only call into
  these and are not modelled.

  Python's \<^verbatim>\<open>str\<close> is a sequence of code points.  Here a string is a \<^typ>\<open>string\<close>
  whose characters stand for the code points U+0000 to U+00FF; the predicates on
  characters below are Python's on that range.  Python's \<^verbatim>\<open>int\<close> is unbounded and
  is \<^typ>\<open>int\<close>.
\<close>

subsection \<open>Data model\<close>

text \<open>
  \<^verbatim>\<open>
  @dataclass
  class User:
      card_number: str
      password: str
      balance: int
  \<close>
\<close>

record User =
  card_number :: string
  password :: string
  balance :: int

text \<open>
  \<^verbatim>\<open>
  class BankService:
      def __init__(self, users: List[User]):
          self._users = users
          self._current_user = None
  \<close>
  \<^verbatim>\<open>_current_user\<close> is \<^verbatim>\<open>None\<close> or a reference to one of the objects held in
  \<^verbatim>\<open>_users\<close>: the only assignment to it, in \<^verbatim>\<open>authenticate\<close>, stores the loop
  variable.  A reference is modelled as the position of the object in the list (the
  objects of the list are distinct, \<^verbatim>\<open>load_users\<close> constructs one per line), so that
  an assignment through \<^verbatim>\<open>_current_user\<close> is an update of the list at that position
  and is seen by a later \<^verbatim>\<open>save\<close> of the same list.
\<close>

record BankService =
  users :: "User list"
  current_user :: "nat option"

definition BankService_init :: "User list \<Rightarrow> BankService" where
  "BankService_init us = \<lparr>users = us, current_user = None\<rparr>"

text \<open>A reference held by the session points into the list.\<close>

definition valid :: "BankService \<Rightarrow> bool" where
  "valid s = (case current_user s of None \<Rightarrow> True | Some i \<Rightarrow> i < length (users s))"

subsection \<open>Strings\<close>

text \<open>
  \<^verbatim>\<open>str.isdigit()\<close> is true when the string has at least one character and every
  character is a digit: a character of Unicode numeric type Digit or Decimal.  Up to
  U+00FF these are \<^verbatim>\<open>0\<close> to \<^verbatim>\<open>9\<close> and the superscripts U+00B2, U+00B3 and U+00B9.
\<close>

definition isdigit_char :: "char \<Rightarrow> bool" where
  "isdigit_char c = (c \<in> set ''0123456789'' \<or> c \<in> {CHR 0xB2, CHR 0xB3, CHR 0xB9})"

definition isdigit :: "string \<Rightarrow> bool" where
  "isdigit s = (s \<noteq> [] \<and> list_all isdigit_char s)"

subsection \<open>BankService\<close>

text \<open>
  \<^verbatim>\<open>
  def authenticate(self, password: str) -> Optional[User]:
      for user in self._users:
          if user.password == password:
              self._current_user = user
              return user
      return None
  \<close>
  The loop, from position \<open>k\<close> on; it yields the reference of the first match.
\<close>

fun find_user :: "User list \<Rightarrow> string \<Rightarrow> nat \<Rightarrow> nat option" where
  "find_user [] p k = None"
| "find_user (user # rest) p k =
     (if password user = p then Some k else find_user rest p (Suc k))"

definition authenticate :: "BankService \<Rightarrow> string \<Rightarrow> nat option \<times> BankService" where
  "authenticate s p =
     (case find_user (users s) p 0 of
        Some i \<Rightarrow> (Some i, s\<lparr>current_user := Some i\<rparr>)
      | None \<Rightarrow> (None, s))"

text \<open>
  \<^verbatim>\<open>
  def change_password(self, current_pass: str, new_pass: str) -> bool:
      if not self._current_user or self._current_user.password != current_pass:
          return False
      self._current_user.password = new_pass
      return True
  \<close>
  A \<^verbatim>\<open>User\<close> object is always truthy (the dataclass defines neither \<^verbatim>\<open>__bool__\<close>
  nor \<^verbatim>\<open>__len__\<close>), so \<^verbatim>\<open>not self._current_user\<close> holds exactly for \<^verbatim>\<open>None\<close>.
\<close>

definition change_password :: "BankService \<Rightarrow> string \<Rightarrow> string \<Rightarrow> bool \<times> BankService" where
  "change_password s current_pass new_pass =
     (case current_user s of
        None \<Rightarrow> (False, s)
      | Some i \<Rightarrow>
          if password (users s ! i) \<noteq> current_pass then (False, s)
          else (True, s\<lparr>users := (users s)[i := (users s ! i)\<lparr>password := new_pass\<rparr>]\<rparr>))"

text \<open>
  \<^verbatim>\<open>
  def withdraw(self, amount: int) -> bool:
      if not self._current_user or amount <= 0 or self._current_user.balance < amount:
          return False
      self._current_user.balance -= amount
      return True
  \<close>
\<close>

definition withdraw :: "BankService \<Rightarrow> int \<Rightarrow> bool \<times> BankService" where
  "withdraw s amount =
     (case current_user s of
        None \<Rightarrow> (False, s)
      | Some i \<Rightarrow>
          if amount \<le> 0 \<or> balance (users s ! i) < amount then (False, s)
          else (True, s\<lparr>users := (users s)[i := (users s ! i)\<lparr>balance := balance (users s ! i) - amount\<rparr>]\<rparr>))"

text \<open>
  \<^verbatim>\<open>
  def transfer(self, amount: int, dest_card: str) -> bool:
      if (not self._current_user or amount <= 0 or
          not dest_card.isdigit() or
          self._current_user.balance < amount):
          return False
      self._current_user.balance -= amount
      return True
  \<close>
\<close>

definition transfer :: "BankService \<Rightarrow> int \<Rightarrow> string \<Rightarrow> bool \<times> BankService" where
  "transfer s amount dest_card =
     (case current_user s of
        None \<Rightarrow> (False, s)
      | Some i \<Rightarrow>
          if amount \<le> 0 \<or> \<not> isdigit dest_card \<or> balance (users s ! i) < amount then (False, s)
          else (True, s\<lparr>users := (users s)[i := (users s ! i)\<lparr>balance := balance (users s ! i) - amount\<rparr>]\<rparr>))"

text \<open>
  \<^verbatim>\<open>
  def get_balance(self) -> int:
      return self._current_user.balance if self._current_user else 0
  \<close>
\<close>

definition get_balance :: "BankService \<Rightarrow> int" where
  "get_balance s = (case current_user s of Some i \<Rightarrow> balance (users s ! i) | None \<Rightarrow> 0)"

subsection \<open>Calls from outside\<close>

text \<open>
  The pages call the five methods in any order.  One call is an \<open>operation\<close>, and
  \<open>perform\<close> is the state it leaves behind; \<^verbatim>\<open>get_balance\<close> assigns nothing.
\<close>

datatype operation =
    Authenticate string
  | ChangePassword string string
  | Withdraw int
  | Transfer int string
  | GetBalance

fun perform :: "BankService \<Rightarrow> operation \<Rightarrow> BankService" where
  "perform s (Authenticate p) = snd (authenticate s p)"
| "perform s (ChangePassword current_pass new_pass) = snd (change_password s current_pass new_pass)"
| "perform s (Withdraw amount) = snd (withdraw s amount)"
| "perform s (Transfer amount dest_card) = snd (transfer s amount dest_card)"
| "perform s GetBalance = s"

text \<open>A sequence of \<^verbatim>\<open>withdraw\<close> calls, each on the state the previous one left.\<close>

fun withdraw_all :: "BankService \<Rightarrow> int list \<Rightarrow> BankService" where
  "withdraw_all s [] = s"
| "withdraw_all s (amount # amounts) = withdraw_all (snd (withdraw s amount)) amounts"

definition balances_nonneg :: "BankService \<Rightarrow> bool" where
  "balances_nonneg s = list_all (\<lambda>user. 0 \<le> balance user) (users s)"

subsection \<open>Reading the accounts file\<close>

text \<open>
  \<^verbatim>\<open>
  @staticmethod
  def load_users(file_name):
      users = []
      with open(file_name, 'r') as f:
          for line in f:
              card, passwd, balance = line.split(',')
              users.append(User(card, passwd, int(balance)))
      return users
  \<close>
  The file system maps a path to the decoded text of the file, or to nothing when there
  is no such file; \<^verbatim>\<open>open\<close> then raises \<^verbatim>\<open>FileNotFoundError\<close>.  A wrong number of
  fields in the unpacking assignment and a string that \<^verbatim>\<open>int\<close> rejects both raise
  \<^verbatim>\<open>ValueError\<close>.  Neither is caught, so the call returns no list.
\<close>

datatype error = FileNotFoundError | ValueError

type_synonym filesystem = "string \<rightharpoonup> string"

definition LF :: char where "LF = CHR 0x0A"
definition CR :: char where "CR = CHR 0x0D"

text \<open>
  A file opened in text mode for reading with the default \<^verbatim>\<open>newline=None\<close> hands
  \<^verbatim>\<open>\r\n\<close> and a lone \<^verbatim>\<open>\r\<close> over as \<^verbatim>\<open>\n\<close>.
\<close>

fun universal_newlines :: "string \<Rightarrow> string" where
  "universal_newlines [] = []"
| "universal_newlines [c] = (if c = CR then [LF] else [c])"
| "universal_newlines (c # d # cs) =
     (if c = CR \<and> d = LF then LF # universal_newlines cs
      else if c = CR then LF # universal_newlines (d # cs)
      else c # universal_newlines (d # cs))"

text \<open>
  Iterating over the file yields its lines, each with its \<^verbatim>\<open>\n\<close>; the last line has
  none when the text does not end in one.
\<close>

fun file_lines :: "string \<Rightarrow> string list" where
  "file_lines [] = []"
| "file_lines (c # cs) =
     (if c = LF then [c] # file_lines cs
      else (case file_lines cs of [] \<Rightarrow> [[c]] | l # ls \<Rightarrow> (c # l) # ls))"

text \<open>\<^verbatim>\<open>line.split(',')\<close>: the pieces between the separators, at least one piece.\<close>

fun str_split :: "char \<Rightarrow> string \<Rightarrow> string list" where
  "str_split sep [] = [[]]"
| "str_split sep (c # cs) =
     (if c = sep then [] # str_split sep cs
      else (case str_split sep cs of [] \<Rightarrow> [[c]] | l # ls \<Rightarrow> (c # l) # ls))"

text \<open>
  \<^verbatim>\<open>int(s)\<close> for a string, base 10: white space is stripped at both ends, then an
  optional sign, then decimal digits, where a single underscore may stand between two
  digits.  Up to U+00FF the white space \<^verbatim>\<open>int\<close> strips is U+0009 to U+000D, U+0020,
  U+0085 and U+00A0, and the decimal digits are \<^verbatim>\<open>0\<close> to \<^verbatim>\<open>9\<close>.  (The interpreter's
  configurable limit on the number of digits is not modelled.)
\<close>

definition int_space :: "char \<Rightarrow> bool" where
  "int_space c =
     (c \<in> {CHR 0x09, CHR 0x0A, CHR 0x0B, CHR 0x0C, CHR 0x0D, CHR 0x20, CHR 0x85, CHR 0xA0})"

definition decimal_digit :: "char \<Rightarrow> bool" where
  "decimal_digit c = (c \<in> set ''0123456789'')"

definition digit_value :: "char \<Rightarrow> nat" where
  "digit_value c = of_char c - 48"

fun int_digits :: "string \<Rightarrow> nat \<Rightarrow> nat option" where
  "int_digits [] acc = Some acc"
| "int_digits [c] acc = (if decimal_digit c then Some (10 * acc + digit_value c) else None)"
| "int_digits (c # d # cs) acc =
     (if decimal_digit c then int_digits (d # cs) (10 * acc + digit_value c)
      else if c = CHR ''_'' \<and> decimal_digit d then int_digits cs (10 * acc + digit_value d)
      else None)"

definition int_unsigned :: "string \<Rightarrow> nat option" where
  "int_unsigned s =
     (case s of
        [] \<Rightarrow> None
      | c # cs \<Rightarrow> if decimal_digit c then int_digits cs (digit_value c) else None)"

definition strip :: "string \<Rightarrow> string" where
  "strip s = rev (dropWhile int_space (rev (dropWhile int_space s)))"

definition py_int :: "string \<Rightarrow> int option" where
  "py_int s =
     (case strip s of
        [] \<Rightarrow> None
      | c # cs \<Rightarrow>
          if c = CHR ''-'' then map_option (\<lambda>n. - int n) (int_unsigned cs)
          else if c = CHR ''+'' then map_option int (int_unsigned cs)
          else map_option int (int_unsigned (c # cs)))"

text \<open>The body of the loop: one line gives one \<^verbatim>\<open>User\<close>, or raises.\<close>

definition parse_line :: "string \<Rightarrow> error + User" where
  "parse_line line =
     (case str_split CHR '','' line of
        [card_no, passwd, bal] \<Rightarrow>
          (case py_int bal of
             None \<Rightarrow> Inl ValueError
           | Some b \<Rightarrow> Inr \<lparr>card_number = card_no, password = passwd, balance = b\<rparr>)
      | _ \<Rightarrow> Inl ValueError)"

fun load_loop :: "string list \<Rightarrow> User list \<Rightarrow> error + User list" where
  "load_loop [] us = Inr us"
| "load_loop (line # rest) us =
     (case parse_line line of
        Inl e \<Rightarrow> Inl e
      | Inr user \<Rightarrow> load_loop rest (us @ [user]))"

definition load_users :: "filesystem \<Rightarrow> string \<Rightarrow> error + User list" where
  "load_users fs file_name =
     (case fs file_name of
        None \<Rightarrow> Inl FileNotFoundError
      | Some text \<Rightarrow> load_loop (file_lines (universal_newlines text)) [])"

subsection \<open>Writing the accounts file\<close>

text \<open>
  \<^verbatim>\<open>
  @staticmethod
  def save(file_name, users):
      with open(file_name, 'w', newline='') as f:
          writer = csv.writer(f)
          writer.writerows((user.card_number, user.password, user.balance) for user in users)
  \<close>
  \<^verbatim>\<open>csv.writer\<close> with the default dialect: fields are joined by commas and the row ends
  in \<^verbatim>\<open>\r\n\<close> (written as it is, since \<^verbatim>\<open>newline=''\<close>); a field that holds a comma, a
  double quote, \<^verbatim>\<open>\r\<close> or \<^verbatim>\<open>\n\<close> is put in double quotes with its own double quotes
  doubled; a row of one empty field is written as two double quotes; a field that is not
  a string is written as \<^verbatim>\<open>str\<close> of it.  Opening with \<^verbatim>\<open>'w'\<close> replaces the file.
\<close>

text \<open>\<^verbatim>\<open>str\<close> of an \<^verbatim>\<open>int\<close>: its decimal digits, after a minus sign when it is negative.\<close>

definition digit_char :: "nat \<Rightarrow> char" where
  "digit_char d = ''0123456789'' ! d"

fun str_nat :: "nat \<Rightarrow> string" where
  "str_nat n =
     (if n < 10 then [digit_char n] else str_nat (n div 10) @ [digit_char (n mod 10)])"

declare str_nat.simps [simp del]

definition py_str :: "int \<Rightarrow> string" where
  "py_str i = (if i < 0 then CHR ''-'' # str_nat (nat (- i)) else str_nat (nat i))"

definition csv_special :: "char \<Rightarrow> bool" where
  "csv_special c = (c = CHR '','' \<or> c = CHR 0x22 \<or> c = CR \<or> c = LF)"

definition csv_field :: "string \<Rightarrow> string" where
  "csv_field field =
     (if list_ex csv_special field
      then [CHR 0x22] @ concat (map (\<lambda>c. if c = CHR 0x22 then [c, c] else [c]) field) @ [CHR 0x22]
      else field)"

fun join :: "string \<Rightarrow> string list \<Rightarrow> string" where
  "join sep [] = []"
| "join sep [x] = x"
| "join sep (x # y # ys) = x @ sep @ join sep (y # ys)"

definition csv_row :: "string list \<Rightarrow> string" where
  "csv_row row =
     (if row = [[]] then [CHR 0x22, CHR 0x22] else join '','' (map csv_field row)) @ [CR, LF]"

definition save :: "filesystem \<Rightarrow> string \<Rightarrow> User list \<Rightarrow> filesystem" where
  "save fs file_name us =
     fs(file_name \<mapsto>
        concat (map (\<lambda>user. csv_row [card_number user, password user, py_str (balance user)]) us))"

subsection \<open>The two accounts of the specification's scenario\<close>

definition scenario_users :: "User list" where
  "scenario_users =
     [\<lparr>card_number = ''1111'', password = ''pass1'', balance = 1000000\<rparr>,
      \<lparr>card_number = ''2222'', password = ''pass2'', balance = 500000\<rparr>]"

text \<open>The session bound to the account at position \<open>i\<close>.\<close>

definition scenario :: "nat \<Rightarrow> BankService" where
  "scenario i = \<lparr>users = scenario_users, current_user = Some i\<rparr>"

subsection \<open>Three accounts files\<close>

text \<open>The file of the scenario: one line per account, each ended by \<^verbatim>\<open>\n\<close>.\<close>

definition scenario_fs :: filesystem where
  "scenario_fs = [''users.csv'' \<mapsto>
      ''1111,pass1,1000000'' @ [CHR 0x0A] @ ''2222,pass2,500000'' @ [CHR 0x0A]]"


text \<open>
  A file of one line, \<^verbatim>\<open>1111,pa"ss,100\<close>: three fields, the third an integer, and a
  double quote in the password.
\<close>

definition quoted_fs :: filesystem where
  "quoted_fs = [''users.csv'' \<mapsto> ''1111,pa'' @ [CHR 0x22] @ ''ss,100'' @ [CHR 0x0A]]"

definition quoted_users :: "User list" where
  "quoted_users =
     [\<lparr>card_number = ''1111'', password = ''pa'' @ [CHR 0x22] @ ''ss'', balance = 100\<rparr>]"

section \<open>The session keeps a reference into the list\<close>

lemma find_user_Some:
  "find_user us p k = Some i \<Longrightarrow>
     k \<le> i \<and> i - k < length us \<and> password (us ! (i - k)) = p \<and>
     (\<forall>j < i - k. password (us ! j) \<noteq> p)"
proof (induction us arbitrary: k)
  case Nil
  then show ?case by simp
next
  case (Cons u us)
  show ?case
  proof (cases "password u = p")
    case True
    with Cons.prems show ?thesis by simp
  next
    case False
    with Cons.prems have "find_user us p (Suc k) = Some i" by simp
    from Cons.IH [OF this] have ih: "Suc k \<le> i" "i - Suc k < length us"
      "password (us ! (i - Suc k)) = p" "\<forall>j < i - Suc k. password (us ! j) \<noteq> p"
      by simp_all
    from ih(1) have eq: "i - k = Suc (i - Suc k)" by simp
    have "\<forall>j < i - k. password ((u # us) ! j) \<noteq> p"
    proof (intro allI impI)
      fix j assume "j < i - k"
      then show "password ((u # us) ! j) \<noteq> p"
        using False ih(4) eq by (cases j) auto
    qed
    with ih eq show ?thesis by simp
  qed
qed

lemma find_user_None: "find_user us p k = None \<longleftrightarrow> (\<forall>u \<in> set us. password u \<noteq> p)"
  by (induction us arbitrary: k) auto

lemma valid_init: "valid (BankService_init us)"
  by (simp add: valid_def BankService_init_def)

lemma valid_authenticate: "valid s \<Longrightarrow> valid (snd (authenticate s p))"
  by (auto simp: authenticate_def valid_def split: option.splits dest: find_user_Some)

lemma valid_change_password: "valid s \<Longrightarrow> valid (snd (change_password s c n))"
  by (auto simp: change_password_def valid_def split: option.splits)

lemma valid_withdraw: "valid s \<Longrightarrow> valid (snd (withdraw s a))"
  by (auto simp: withdraw_def valid_def split: option.splits)

lemma valid_transfer: "valid s \<Longrightarrow> valid (snd (transfer s a c))"
  by (auto simp: transfer_def valid_def split: option.splits)

lemma valid_perform: "valid s \<Longrightarrow> valid (perform s op)"
  by (cases op) (simp_all add: valid_authenticate valid_change_password valid_withdraw valid_transfer)

lemma valid_scenario: "i < 2 \<Longrightarrow> valid (scenario i)"
  by (simp add: valid_def scenario_def scenario_users_def)

section \<open>Withdrawal\<close>

lemma withdraw_length: "length (users (snd (withdraw s a))) = length (users s)"
  by (simp add: withdraw_def split: option.splits)

lemma withdraw_keeps_nonneg:
  "j < length (users s) \<Longrightarrow> 0 \<le> balance (users s ! j) \<Longrightarrow>
     0 \<le> balance (users (snd (withdraw s a)) ! j)"
proof (cases "current_user s = Some j")
  case True
  then show "j < length (users s) \<Longrightarrow> 0 \<le> balance (users s ! j) \<Longrightarrow> ?thesis"
    by (simp add: withdraw_def)
next
  case False
  then show "0 \<le> balance (users s ! j) \<Longrightarrow> ?thesis"
    by (auto simp: withdraw_def split: option.splits)
qed

lemma withdraw_all_keeps_nonneg:
  "j < length (users s) \<Longrightarrow> 0 \<le> balance (users s ! j) \<Longrightarrow>
     0 \<le> balance (users (withdraw_all s as) ! j)"
  by (induction as arbitrary: s) (simp_all add: withdraw_keeps_nonneg withdraw_length)

text \<open>
  C1.  On a session bound to an account with balance \<open>B\<close>, \<^verbatim>\<open>withdraw(amount)\<close> returns
  true exactly when \<open>0 < amount \<le> B\<close>, and then the balance of that account is
  \<open>B - amount\<close>.  Whatever the session and the amounts, a sequence of \<^verbatim>\<open>withdraw\<close> calls
  leaves every balance that was not negative not negative.
\<close>

theorem withdraw_spec:
  "(valid s \<and> current_user s = Some i \<longrightarrow>
      (fst (withdraw s amount) \<longleftrightarrow> 0 < amount \<and> amount \<le> balance (users s ! i)) \<and>
      (fst (withdraw s amount) \<longrightarrow>
         balance (users (snd (withdraw s amount)) ! i) = balance (users s ! i) - amount)) \<and>
   (\<forall>j < length (users s). 0 \<le> balance (users s ! j) \<longrightarrow>
      0 \<le> balance (users (withdraw_all s amounts) ! j))"
  by (auto simp: withdraw_def valid_def withdraw_all_keeps_nonneg)

theorem withdraw_spec_witness:
  "valid (scenario 1) \<and> current_user (scenario 1) = Some 1 \<and>
   \<not> fst (withdraw (scenario 1) 600000) \<and>
   fst (withdraw (scenario 1) 500000) \<and>
   balance (users (snd (withdraw (scenario 1) 500000)) ! 1) = 0 \<and>
   \<not> fst (withdraw (snd (withdraw (scenario 1) 500000)) 1) \<and>
   0 \<le> balance (users (withdraw_all (scenario 1) [600000, 500000, 1]) ! 1)"
  using withdraw_spec [of "scenario 1" 1 500000 "[600000, 500000, 1]"]
    withdraw_spec [of "scenario 1" 1 600000 "[]"]
  by (simp add: scenario_def scenario_users_def valid_def withdraw_def)

section \<open>Authentication\<close>

lemma find_user_first:
  assumes "i < length us" "password (us ! i) = p" "\<forall>j < i. password (us ! j) \<noteq> p"
  shows "find_user us p k = Some (k + i)"
  using assms
proof (induction us arbitrary: i k)
  case Nil
  then show ?case by simp
next
  case (Cons u us)
  show ?case
  proof (cases i)
    case 0
    with Cons.prems show ?thesis by simp
  next
    case (Suc i')
    from Cons.prems(3) Suc have "password u \<noteq> p" by auto
    moreover have "find_user us p (Suc k) = Some (Suc k + i')"
    proof (rule Cons.IH)
      show "i' < length us" using Cons.prems(1) Suc by simp
      show "password (us ! i') = p" using Cons.prems(2) Suc by simp
      show "\<forall>j < i'. password (us ! j) \<noteq> p"
      proof (intro allI impI)
        fix j assume "j < i'"
        then have "Suc j < i" using Suc by simp
        with Cons.prems(3) have "password ((u # us) ! Suc j) \<noteq> p" by blast
        then show "password (us ! j) \<noteq> p" by simp
      qed
    qed
    ultimately show ?thesis using Suc by simp
  qed
qed

lemma find_user_iff:
  "find_user us p 0 = Some i \<longleftrightarrow>
     i < length us \<and> password (us ! i) = p \<and> (\<forall>j < i. password (us ! j) \<noteq> p)"
  using find_user_Some [of us p 0 i] find_user_first [of i us p 0] by auto

text \<open>
  C4.  \<^verbatim>\<open>authenticate(p)\<close> returns the first account in list order whose password is
  exactly \<open>p\<close> and binds the session to it, so a later account with the same password is
  not returned; when no password is \<open>p\<close> it returns \<^verbatim>\<open>None\<close> and the state, with the
  session's binding, is unchanged.
\<close>

theorem authenticate_first_match:
  "(authenticate s p = (Some i, s') \<longleftrightarrow>
      i < length (users s) \<and> password (users s ! i) = p \<and>
      (\<forall>j < i. password (users s ! j) \<noteq> p) \<and> s' = s\<lparr>current_user := Some i\<rparr>) \<and>
   (authenticate s p = (None, s') \<longleftrightarrow>
      (\<forall>j < length (users s). password (users s ! j) \<noteq> p) \<and> s' = s)"
proof -
  have none: "find_user (users s) p 0 = None \<longleftrightarrow> (\<forall>j < length (users s). password (users s ! j) \<noteq> p)"
    by (simp add: find_user_None all_set_conv_all_nth)
  show ?thesis
  proof (cases "find_user (users s) p 0")
    case None
    with none have no: "\<forall>j < length (users s). password (users s ! j) \<noteq> p" by simp
    from None have "authenticate s p = (None, s)" by (simp add: authenticate_def)
    with no show ?thesis by auto
  next
    case (Some k)
    then have a: "authenticate s p = (Some k, s\<lparr>current_user := Some k\<rparr>)"
      by (simp add: authenticate_def)
    from Some have k: "k < length (users s)" "password (users s ! k) = p"
      "\<forall>j < k. password (users s ! j) \<noteq> p"
      by (simp_all add: find_user_iff)
    have uniq: "i = k" if "i < length (users s)" "password (users s ! i) = p"
      "\<forall>j < i. password (users s ! j) \<noteq> p"
    proof -
      from that have "find_user (users s) p 0 = Some i" by (simp add: find_user_iff)
      with Some show ?thesis by simp
    qed
    from a k uniq show ?thesis by auto
  qed
qed

theorem authenticate_first_match_witness:
  "authenticate (BankService_init scenario_users) ''pass2'' = (Some 1, scenario 1) \<and>
   authenticate (scenario 1) ''pass1'' = (Some 0, scenario 0) \<and>
   authenticate (scenario 1) ''PASS1'' = (None, scenario 1) \<and>
   authenticate (BankService_init scenario_users) ''pass3'' = (None, BankService_init scenario_users) \<and>
   fst (authenticate (BankService_init (scenario_users @ scenario_users)) ''pass2'') = Some 1"
  using authenticate_first_match [of "BankService_init scenario_users" "''pass2''" 1 "scenario 1"]
    authenticate_first_match [of "scenario 1" "''PASS1''" 0 "scenario 1"]
  by (simp add: authenticate_def BankService_init_def scenario_def scenario_users_def)

lemma authenticate_fst_None:
  "fst (authenticate s p) = None \<longleftrightarrow> (\<forall>j < length (users s). password (users s ! j) \<noteq> p)"
proof -
  have "fst (authenticate s p) = None \<longleftrightarrow> find_user (users s) p 0 = None"
    by (simp add: authenticate_def split: option.splits)
  then show ?thesis by (simp add: find_user_None all_set_conv_all_nth)
qed

lemma authenticate_fst_Some:
  "fst (authenticate s p) = Some k \<Longrightarrow> k < length (users s) \<and> password (users s ! k) = p"
  by (auto simp: authenticate_def find_user_iff split: option.splits)

section \<open>What a call leaves alone\<close>

lemma perform_frame_length: "length (users (perform s op)) = length (users s)"
  by (cases op)
    (simp_all add: authenticate_def change_password_def withdraw_def transfer_def split: option.splits)

lemma perform_frame_others:
  "current_user s \<noteq> Some j \<Longrightarrow> users (perform s op) ! j = users s ! j"
  by (cases op)
    (auto simp: authenticate_def change_password_def withdraw_def transfer_def split: option.splits)

lemma perform_frame_card_number:
  "valid s \<Longrightarrow> map card_number (users (perform s op)) = map card_number (users s)"
  by (cases op)
    (auto simp: authenticate_def change_password_def withdraw_def transfer_def valid_def
      map_update list_update_same_conv split: option.splits)

lemma perform_frame_password:
  "valid s \<Longrightarrow> \<forall>c n. op \<noteq> ChangePassword c n \<Longrightarrow>
     map password (users (perform s op)) = map password (users s)"
  by (cases op)
    (auto simp: authenticate_def withdraw_def transfer_def valid_def map_update list_update_same_conv
      split: option.splits)

lemma perform_frame_balance:
  "valid s \<Longrightarrow> \<forall>a. op \<noteq> Withdraw a \<Longrightarrow> \<forall>a d. op \<noteq> Transfer a d \<Longrightarrow>
     map balance (users (perform s op)) = map balance (users s)"
  by (cases op)
    (auto simp: authenticate_def change_password_def valid_def map_update list_update_same_conv
      split: option.splits)

text \<open>
  C9.  No call changes the number of accounts, their order or any card number, nor any
  field of an account other than the one the session is bound to; passwords change only
  by \<^verbatim>\<open>change_password\<close> and balances only by \<^verbatim>\<open>withdraw\<close> and \<^verbatim>\<open>transfer\<close>.
\<close>

theorem operations_frame:
  "valid s \<Longrightarrow>
     length (users (perform s op)) = length (users s) \<and>
     map card_number (users (perform s op)) = map card_number (users s) \<and>
     (\<forall>j < length (users s). current_user s \<noteq> Some j \<longrightarrow> users (perform s op) ! j = users s ! j) \<and>
     (map password (users (perform s op)) \<noteq> map password (users s) \<longrightarrow>
        (\<exists>c n. op = ChangePassword c n)) \<and>
     (map balance (users (perform s op)) \<noteq> map balance (users s) \<longrightarrow>
        (\<exists>a. op = Withdraw a) \<or> (\<exists>a d. op = Transfer a d))"
  using perform_frame_length [of s op] perform_frame_others [of s _ op]
    perform_frame_card_number [of s op] perform_frame_password [of s op]
    perform_frame_balance [of s op]
  by blast

theorem operations_frame_witness:
  "valid (scenario 1) \<and>
   length (users (perform (scenario 1) (Withdraw 500000))) = length (users (scenario 1)) \<and>
   map card_number (users (perform (scenario 1) (Withdraw 500000))) = [''1111'', ''2222''] \<and>
   users (perform (scenario 1) (Withdraw 500000)) ! 0 = users (scenario 1) ! 0 \<and>
   map password (users (perform (scenario 1) (Withdraw 500000))) = [''pass1'', ''pass2''] \<and>
   map balance (users (perform (scenario 1) (Withdraw 500000))) = [1000000, 0] \<and>
   map password (users (perform (scenario 1) (ChangePassword ''pass2'' ''new''))) = [''pass1'', ''new''] \<and>
   map balance (users (perform (scenario 1) (ChangePassword ''pass2'' ''new''))) = [1000000, 500000]"
proof -
  have v: "valid (scenario 1)" by (simp add: valid_scenario)
  from operations_frame [OF v, of "Withdraw 500000"]
    operations_frame [OF v, of "ChangePassword ''pass2'' ''new''"] v
  show ?thesis
    by (simp add: withdraw_def change_password_def scenario_def scenario_users_def)
qed

section \<open>Failed calls\<close>

text \<open>
  C6.  When \<^verbatim>\<open>withdraw\<close>, \<^verbatim>\<open>transfer\<close> or \<^verbatim>\<open>change_password\<close> returns false, the whole
  state is as before the call: every field of every account, and the account the session
  is bound to.
\<close>

theorem failure_is_atomic:
  "(\<not> fst (withdraw s amount) \<longrightarrow> snd (withdraw s amount) = s) \<and>
   (\<not> fst (transfer s amount dest_card) \<longrightarrow> snd (transfer s amount dest_card) = s) \<and>
   (\<not> fst (change_password s current_pass new_pass) \<longrightarrow>
      snd (change_password s current_pass new_pass) = s)"
  by (simp add: withdraw_def transfer_def change_password_def split: option.splits)

theorem failure_is_atomic_witness:
  "\<not> fst (withdraw (scenario 1) 600000) \<and>
   snd (withdraw (scenario 1) 600000) = scenario 1 \<and>
   \<not> fst (transfer (scenario 0) 100 ''12a4'') \<and>
   snd (transfer (scenario 0) 100 ''12a4'') = scenario 0 \<and>
   \<not> fst (change_password (scenario 0) ''pass2'' ''new'') \<and>
   snd (change_password (scenario 0) ''pass2'' ''new'') = scenario 0"
  using failure_is_atomic [of "scenario 1" 600000 "''12a4''" "''pass2''" "''new''"]
    failure_is_atomic [of "scenario 0" 100 "''12a4''" "''pass2''" "''new''"]
  by (simp add: withdraw_def transfer_def change_password_def scenario_def scenario_users_def
      isdigit_def isdigit_char_def)

text \<open>
  C10.  On a session bound to an account with balance \<open>B\<close> and for \<open>0 < amount \<le> B\<close>,
  \<^verbatim>\<open>transfer(amount, "")\<close> returns false and changes nothing, although every character
  of the empty card is a digit.
\<close>

theorem transfer_empty_card:
  "valid s \<Longrightarrow> current_user s = Some i \<Longrightarrow> 0 < amount \<Longrightarrow> amount \<le> balance (users s ! i) \<Longrightarrow>
     list_all isdigit_char [] \<and> transfer s amount [] = (False, s)"
  by (simp add: transfer_def isdigit_def)

theorem transfer_empty_card_witness:
  "valid (scenario 0) \<and> current_user (scenario 0) = Some 0 \<and> (0::int) < 100 \<and>
   100 \<le> balance (users (scenario 0) ! 0) \<and>
   transfer (scenario 0) 100 [] = (False, scenario 0) \<and>
   get_balance (snd (transfer (scenario 0) 100 [])) = 1000000"
proof -
  have v: "valid (scenario 0)" by (simp add: valid_scenario)
  have c: "current_user (scenario 0) = Some 0" by (simp add: scenario_def)
  have a: "(0::int) < 100" by simp
  have b: "100 \<le> balance (users (scenario 0) ! 0)" by (simp add: scenario_def scenario_users_def)
  from transfer_empty_card [OF v c a b] v c b show ?thesis
    by (simp add: get_balance_def scenario_def scenario_users_def)
qed

section \<open>Balances stay non-negative\<close>

lemma nonneg_withdraw: "valid s \<Longrightarrow> balances_nonneg s \<Longrightarrow> balances_nonneg (snd (withdraw s a))"
  unfolding balances_nonneg_def list_all_length
  by (auto simp: withdraw_def valid_def nth_list_update split: option.splits)

lemma nonneg_transfer: "valid s \<Longrightarrow> balances_nonneg s \<Longrightarrow> balances_nonneg (snd (transfer s a c))"
  unfolding balances_nonneg_def list_all_length
  by (auto simp: transfer_def valid_def nth_list_update split: option.splits)

lemma nonneg_change_password:
  "valid s \<Longrightarrow> balances_nonneg s \<Longrightarrow> balances_nonneg (snd (change_password s c n))"
  unfolding balances_nonneg_def list_all_length
  by (auto simp: change_password_def valid_def nth_list_update split: option.splits)

lemma nonneg_authenticate: "balances_nonneg s \<Longrightarrow> balances_nonneg (snd (authenticate s p))"
  by (simp add: balances_nonneg_def authenticate_def split: option.splits)

lemma nonneg_perform: "valid s \<Longrightarrow> balances_nonneg s \<Longrightarrow> balances_nonneg (perform s op)"
  by (cases op)
    (simp_all add: nonneg_withdraw nonneg_transfer nonneg_change_password nonneg_authenticate)

lemma overdraw_rejected:
  "current_user s = Some i \<Longrightarrow> balance (users s ! i) - amount < 0 \<Longrightarrow>
     withdraw s amount = (False, s) \<and> transfer s amount dest_card = (False, s)"
  by (simp add: withdraw_def transfer_def)

text \<open>
  C3.  From a state whose balances are all non-negative, every call (\<^verbatim>\<open>authenticate\<close>,
  \<^verbatim>\<open>withdraw\<close>, \<^verbatim>\<open>transfer\<close>, \<^verbatim>\<open>change_password\<close>, \<^verbatim>\<open>get_balance\<close>) leaves all balances
  non-negative; a \<^verbatim>\<open>withdraw\<close> or \<^verbatim>\<open>transfer\<close> that would take the session's balance below
  zero returns false and changes nothing.
\<close>

theorem balances_stay_nonneg:
  "valid s \<Longrightarrow> balances_nonneg s \<Longrightarrow>
     balances_nonneg (perform s op) \<and>
     (\<forall>i. current_user s = Some i \<and> balance (users s ! i) - amount < 0 \<longrightarrow>
        withdraw s amount = (False, s) \<and> transfer s amount dest_card = (False, s))"
  using nonneg_perform [of s op] overdraw_rejected [of s _ amount dest_card] by blast

theorem balances_stay_nonneg_witness:
  "valid (scenario 1) \<and> balances_nonneg (scenario 1) \<and>
   balances_nonneg (perform (scenario 1) (Withdraw 500000)) \<and>
   map balance (users (perform (scenario 1) (Withdraw 500000))) = [1000000, 0] \<and>
   current_user (scenario 1) = Some 1 \<and>
   balance (users (scenario 1) ! 1) - 500001 < 0 \<and>
   withdraw (scenario 1) 500001 = (False, scenario 1) \<and>
   transfer (scenario 1) 500001 ''1111'' = (False, scenario 1)"
proof -
  have v: "valid (scenario 1)" by (simp add: valid_scenario)
  have n: "balances_nonneg (scenario 1)"
    by (simp add: balances_nonneg_def scenario_def scenario_users_def)
  have c: "current_user (scenario 1) = Some 1" by (simp add: scenario_def)
  have b: "balance (users (scenario 1) ! 1) - 500001 < 0"
    by (simp add: scenario_def scenario_users_def)
  have m: "map balance (users (perform (scenario 1) (Withdraw 500000))) = [1000000, 0]"
    by (simp add: withdraw_def scenario_def scenario_users_def)
  from balances_stay_nonneg [OF v n, of "Withdraw 500000" 500001 "''1111''"] v n c b m
  show ?thesis by simp
qed

section \<open>Transfer\<close>

text \<open>
  C2 as stated fails: on a session bound to an account with balance \<open>1000000\<close>, for the
  amount \<open>100\<close> and the empty card, every character of the card is a decimal digit and
  yet \<^verbatim>\<open>transfer\<close> returns false.
\<close>

theorem transfer_as_claimed_counterexample:
  "current_user (scenario 0) = Some 0 \<and> (0::int) < 100 \<and>
   100 \<le> balance (users (scenario 0) ! 0) \<and>
   list_all decimal_digit [] \<and>
   \<not> fst (transfer (scenario 0) 100 [])"
  by (simp add: transfer_def isdigit_def scenario_def scenario_users_def)

text \<open>
  C2, amended.  \<^verbatim>\<open>transfer(amount, card)\<close> returns true exactly when the session is bound
  to an account, \<open>0 < amount \<le> B\<close> for its balance \<open>B\<close>, and \<^verbatim>\<open>card.isdigit()\<close> holds: the
  card is not empty and each of its characters is a digit in the sense of \<^verbatim>\<open>str.isdigit\<close>.
  On success the balance of the session's account is \<open>B - amount\<close>, its other fields, every
  other account, the length of the list and the session's binding are unchanged; no
  account is looked up by the card.
\<close>

theorem transfer_spec:
  "valid s \<Longrightarrow>
     (fst (transfer s amount dest_card) \<longleftrightarrow>
        (\<exists>i. current_user s = Some i \<and> 0 < amount \<and> amount \<le> balance (users s ! i)) \<and>
        dest_card \<noteq> [] \<and> list_all isdigit_char dest_card) \<and>
     (\<forall>i. current_user s = Some i \<and> fst (transfer s amount dest_card) \<longrightarrow>
        balance (users (snd (transfer s amount dest_card)) ! i) = balance (users s ! i) - amount \<and>
        card_number (users (snd (transfer s amount dest_card)) ! i) = card_number (users s ! i) \<and>
        password (users (snd (transfer s amount dest_card)) ! i) = password (users s ! i) \<and>
        length (users (snd (transfer s amount dest_card))) = length (users s) \<and>
        (\<forall>j < length (users s). j \<noteq> i \<longrightarrow>
           users (snd (transfer s amount dest_card)) ! j = users s ! j) \<and>
        current_user (snd (transfer s amount dest_card)) = current_user s)"
  by (auto simp: transfer_def isdigit_def valid_def split: option.splits)

theorem transfer_spec_witness:
  "valid (scenario 0) \<and> current_user (scenario 0) = Some 0 \<and>
   fst (transfer (scenario 0) 100 ''1234'') \<and>
   map balance (users (snd (transfer (scenario 0) 100 ''1234''))) = [999900, 500000] \<and>
   map card_number (users (snd (transfer (scenario 0) 100 ''1234''))) = [''1111'', ''2222''] \<and>
   \<not> fst (transfer (scenario 0) 100 ''12a4'') \<and>
   \<not> fst (transfer (scenario 0) (- 5) ''1234'') \<and>
   fst (transfer (scenario 0) 100 [CHR 0xB2]) \<and>
   \<not> fst (transfer (BankService_init scenario_users) 100 ''1234'')"
proof -
  have v: "valid (scenario 0)" by (simp add: valid_scenario)
  from transfer_spec [OF v, of 100 "''1234''"] v show ?thesis
    by (simp add: transfer_def isdigit_def isdigit_char_def scenario_def scenario_users_def
        BankService_init_def)
qed

section \<open>Changing the password\<close>

text \<open>
  C7 as stated fails when the new password equals the current one: the call succeeds,
  \<^verbatim>\<open>authenticate\<close> with the old password still returns that very account, and no other
  account has that password.
\<close>

theorem change_password_as_claimed_counterexample:
  "current_user (scenario 1) = Some 1 \<and>
   fst (change_password (scenario 1) ''pass2'' ''pass2'') \<and>
   fst (authenticate (snd (change_password (scenario 1) ''pass2'' ''pass2'')) ''pass2'') = Some 1 \<and>
   map password (users (snd (change_password (scenario 1) ''pass2'' ''pass2''))) = [''pass1'', ''pass2'']"
  by (simp add: change_password_def authenticate_def scenario_def scenario_users_def)

lemma change_password_result:
  "current_user s = Some i \<Longrightarrow> fst (change_password s cur new) \<Longrightarrow>
     snd (change_password s cur new) = s\<lparr>users := (users s)[i := (users s ! i)\<lparr>password := new\<rparr>]\<rparr>
     \<and> password (users s ! i) = cur"
  by (simp add: change_password_def split: if_splits)

text \<open>
  C7, amended.  \<^verbatim>\<open>change_password(cur, new)\<close> returns true exactly when the session is
  bound to an account whose stored password is \<open>cur\<close>.  On success the stored password is
  \<open>new\<close>, whatever string that is, and \<^verbatim>\<open>authenticate(new)\<close> succeeds; if \<open>new\<close> differs from
  \<open>cur\<close>, \<^verbatim>\<open>authenticate(cur)\<close> does not return that account, and it succeeds exactly when
  another account has the password \<open>cur\<close>.
\<close>

theorem change_password_spec:
  "valid s \<Longrightarrow>
     (fst (change_password s cur new) \<longleftrightarrow>
        (\<exists>i. current_user s = Some i \<and> password (users s ! i) = cur)) \<and>
     (\<forall>i. current_user s = Some i \<and> fst (change_password s cur new) \<longrightarrow>
        password (users (snd (change_password s cur new)) ! i) = new \<and>
        fst (authenticate (snd (change_password s cur new)) new) \<noteq> None \<and>
        (new \<noteq> cur \<longrightarrow>
           fst (authenticate (snd (change_password s cur new)) cur) \<noteq> Some i \<and>
           (fst (authenticate (snd (change_password s cur new)) cur) \<noteq> None \<longleftrightarrow>
              (\<exists>j < length (users s). j \<noteq> i \<and> password (users s ! j) = cur))))"
proof (intro conjI allI impI)
  assume v: "valid s"
  show "fst (change_password s cur new) \<longleftrightarrow>
      (\<exists>i. current_user s = Some i \<and> password (users s ! i) = cur)"
    by (simp add: change_password_def split: option.splits)
next
  fix i
  assume v: "valid s" and h: "current_user s = Some i \<and> fst (change_password s cur new)"
  let ?s' = "snd (change_password s cur new)"
  from v h have i: "i < length (users s)" by (simp add: valid_def)
  from h have s': "?s' = s\<lparr>users := (users s)[i := (users s ! i)\<lparr>password := new\<rparr>]\<rparr>"
    and old: "password (users s ! i) = cur"
    using change_password_result [of s i cur new] by simp_all
  from s' i have len: "length (users ?s') = length (users s)" by simp
  from s' i have pi: "password (users ?s' ! i) = new" by simp
  from s' have pj: "\<And>j. j \<noteq> i \<Longrightarrow> users ?s' ! j = users s ! j" by simp
  show "password (users ?s' ! i) = new" by (rule pi)
  show "fst (authenticate ?s' new) \<noteq> None"
    using pi i len by (auto simp: authenticate_fst_None)
  {
    assume ne: "new \<noteq> cur"
    show "fst (authenticate ?s' cur) \<noteq> Some i"
    proof
      assume "fst (authenticate ?s' cur) = Some i"
      from authenticate_fst_Some [OF this] pi ne show False by simp
    qed
    show "fst (authenticate ?s' cur) \<noteq> None \<longleftrightarrow>
        (\<exists>j < length (users s). j \<noteq> i \<and> password (users s ! j) = cur)"
    proof
      assume "fst (authenticate ?s' cur) \<noteq> None"
      then obtain j where j: "j < length (users ?s')" "password (users ?s' ! j) = cur"
        by (auto simp: authenticate_fst_None)
      with pi ne have "j \<noteq> i" by auto
      with j pj len show "\<exists>j < length (users s). j \<noteq> i \<and> password (users s ! j) = cur"
        by auto
    next
      assume "\<exists>j < length (users s). j \<noteq> i \<and> password (users s ! j) = cur"
      then obtain j where "j < length (users s)" "j \<noteq> i" "password (users s ! j) = cur"
        by auto
      with pj len have "j < length (users ?s')" "password (users ?s' ! j) = cur" by simp_all
      then show "fst (authenticate ?s' cur) \<noteq> None"
        by (auto simp: authenticate_fst_None)
    qed
  }
qed

theorem change_password_spec_witness:
  "valid (scenario 1) \<and> current_user (scenario 1) = Some 1 \<and>
   fst (change_password (scenario 1) ''pass2'' []) \<and>
   password (users (snd (change_password (scenario 1) ''pass2'' [])) ! 1) = [] \<and>
   fst (authenticate (snd (change_password (scenario 1) ''pass2'' [])) []) = Some 1 \<and>
   fst (authenticate (snd (change_password (scenario 1) ''pass2'' [])) ''pass2'') = None \<and>
   \<not> fst (change_password (scenario 1) ''pass1'' ''new'') \<and>
   \<not> fst (change_password (BankService_init scenario_users) ''pass1'' ''new'')"
proof -
  have v: "valid (scenario 1)" by (simp add: valid_scenario)
  from change_password_spec [OF v, of "''pass2''" "[]"] v show ?thesis
    by (simp add: change_password_def authenticate_def scenario_def scenario_users_def
        BankService_init_def)
qed

section \<open>Loading\<close>

lemma parse_line_unfold:
  "parse_line line =
     (if length (str_split CHR '','' line) = 3
      then (case py_int (str_split CHR '','' line ! 2) of
              None \<Rightarrow> Inl ValueError
            | Some b \<Rightarrow> Inr \<lparr>card_number = str_split CHR '','' line ! 0,
                  password = str_split CHR '','' line ! 1, balance = b\<rparr>)
      else Inl ValueError)"
proof (cases "str_split CHR '','' line")
  case Nil
  then show ?thesis by (simp add: parse_line_def)
next
  case c1: (Cons x1 r1)
  show ?thesis
  proof (cases r1)
    case Nil
    with c1 show ?thesis by (simp add: parse_line_def)
  next
    case c2: (Cons x2 r2)
    show ?thesis
    proof (cases r2)
      case Nil
      with c1 c2 show ?thesis by (simp add: parse_line_def)
    next
      case c3: (Cons x3 r3)
      show ?thesis
      proof (cases r3)
        case Nil
        with c1 c2 c3 show ?thesis by (simp add: parse_line_def split: option.splits)
      next
        case (Cons x4 r4)
        with c1 c2 c3 show ?thesis by (simp add: parse_line_def)
      qed
    qed
  qed
qed




lemma load_loop_complete:
  "map parse_line ls = map Inr vs \<Longrightarrow> load_loop ls acc = Inr (acc @ vs)"
proof (induction ls arbitrary: acc vs)
  case Nil
  then show ?case by simp
next
  case (Cons l ls)
  from Cons.prems obtain w ws where vs: "vs = w # ws" by (cases vs) simp_all
  with Cons.prems have l: "parse_line l = Inr w" and r: "map parse_line ls = map Inr ws"
    by simp_all
  from Cons.IH [OF r, of "acc @ [w]"] l vs show ?case by simp
qed

lemma load_loop_sound:
  "load_loop ls acc = Inr us \<Longrightarrow> \<exists>vs. us = acc @ vs \<and> map parse_line ls = map Inr vs"
proof (induction ls arbitrary: acc)
  case Nil
  then show ?case by simp
next
  case (Cons l ls)
  show ?case
  proof (cases "parse_line l")
    case (Inl e)
    with Cons.prems show ?thesis by simp
  next
    case (Inr u)
    with Cons.prems have "load_loop ls (acc @ [u]) = Inr us" by simp
    from Cons.IH [OF this] obtain vs where vs: "us = (acc @ [u]) @ vs"
      and m: "map parse_line ls = map Inr vs"
      by blast
    from vs have "us = acc @ (u # vs)" by simp
    moreover from m Inr have "map parse_line (l # ls) = map Inr (u # vs)" by simp
    ultimately show ?thesis by blast
  qed
qed

lemma load_loop_Inr:
  "load_loop ls [] = Inr us \<longleftrightarrow> map parse_line ls = map Inr us"
proof
  assume "load_loop ls [] = Inr us"
  from load_loop_sound [OF this] show "map parse_line ls = map Inr us" by simp
next
  assume "map parse_line ls = map Inr us"
  from load_loop_complete [OF this, of "[]"] show "load_loop ls [] = Inr us" by simp
qed



section \<open>Saving and loading again\<close>

text \<open>
  C5 does not hold of the file \<^verbatim>\<open>1111,pa"ss,100\<close>.  The file loads: its line has three
  fields and the third is an integer.  Saving the loaded list writes the password in
  double quotes with its own double quote doubled, and loading that file gives the account
  the password \<^verbatim>\<open>"pa""ss"\<close>, not \<^verbatim>\<open>pa"ss\<close>: the second load differs from the first.
\<close>

theorem load_save_load_quoted_password:
  "load_users quoted_fs ''users.csv'' = Inr quoted_users \<and>
   map password quoted_users = [''pa'' @ [CHR 0x22] @ ''ss''] \<and>
   save quoted_fs ''users.csv'' quoted_users ''users.csv'' =
     Some (''1111,'' @ [CHR 0x22] @ ''pa'' @ [CHR 0x22, CHR 0x22] @ ''ss'' @ [CHR 0x22] @
       '',100'' @ [CHR 0x0D, CHR 0x0A]) \<and>
   load_users (save quoted_fs ''users.csv'' quoted_users) ''users.csv'' =
     Inr [\<lparr>card_number = ''1111'',
        password = [CHR 0x22] @ ''pa'' @ [CHR 0x22, CHR 0x22] @ ''ss'' @ [CHR 0x22],
        balance = 100\<rparr>] \<and>
   load_users (save quoted_fs ''users.csv'' quoted_users) ''users.csv'' \<noteq> Inr quoted_users"
  by (simp add: quoted_fs_def quoted_users_def load_users_def save_def csv_row_def csv_field_def
      csv_special_def py_str_def str_nat.simps digit_char_def parse_line_def py_int_def
      strip_def int_unsigned_def decimal_digit_def digit_value_def int_space_def LF_def CR_def)

section \<open>Where saving and loading again does agree\<close>

text \<open>
  The quoting of the writer is the only obstacle: a list whose card numbers and passwords
  hold no comma, double quote, \<^verbatim>\<open>\r\<close> or \<^verbatim>\<open>\n\<close> is loaded back as it was saved, and the
  fields of a loaded list hold no comma, \<^verbatim>\<open>\r\<close> or \<^verbatim>\<open>\n\<close>.
\<close>

subsection \<open>\<^verbatim>\<open>int\<close> reads what \<^verbatim>\<open>str\<close> writes\<close>

lemma digit_char_cases:
  "d < 10 \<Longrightarrow> decimal_digit (digit_char d) \<and> digit_value (digit_char d) = d"
proof -
  assume "d < 10"
  then have "d \<in> {0, 1, 2, 3, 4, 5, 6, 7, 8, 9}" by auto
  then show ?thesis
    by (auto simp: digit_char_def digit_value_def decimal_digit_def)
qed

lemma int_digits_all:
  "list_all decimal_digit ds \<Longrightarrow>
     int_digits ds acc = Some (foldl (\<lambda>a c. 10 * a + digit_value c) acc ds)"
  by (induction ds acc rule: int_digits.induct) simp_all

lemma str_nat_digits: "list_all decimal_digit (str_nat n) \<and> str_nat n \<noteq> []"
proof (induction n rule: str_nat.induct)
  case (1 n)
  show ?case
  proof (cases "n < 10")
    case True
    then show ?thesis by (simp add: str_nat.simps [of n] digit_char_cases)
  next
    case False
    with 1 show ?thesis by (simp add: str_nat.simps [of n] digit_char_cases)
  qed
qed

lemma str_nat_value: "foldl (\<lambda>a c. 10 * a + digit_value c) 0 (str_nat n) = n"
proof (induction n rule: str_nat.induct)
  case (1 n)
  show ?case
  proof (cases "n < 10")
    case True
    then show ?thesis by (simp add: str_nat.simps [of n] digit_char_cases)
  next
    case False
    with 1 show ?thesis by (simp add: str_nat.simps [of n] digit_char_cases)
  qed
qed

lemma int_unsigned_str_nat: "int_unsigned (str_nat n) = Some n"
proof -
  obtain d ds where s: "str_nat n = d # ds"
    using str_nat_digits [of n] by (cases "str_nat n") simp_all
  with str_nat_digits [of n] have d: "decimal_digit d" "list_all decimal_digit ds" by simp_all
  from str_nat_value [of n] s
  have "foldl (\<lambda>a c. 10 * a + digit_value c) (digit_value d) ds = n" by simp
  with d s show ?thesis by (simp add: int_unsigned_def int_digits_all)
qed


lemma decimal_digit_no_space: "decimal_digit c \<Longrightarrow> \<not> int_space c \<and> c \<noteq> CHR ''-'' \<and> c \<noteq> CHR ''+''"
  by (auto simp: decimal_digit_def int_space_def)

lemma strip_line:
  assumes "s \<noteq> []" and "\<not> int_space (hd s)" and "\<not> int_space (last s)"
  shows "strip (s @ [LF]) = s"
proof -
  from assms(1) obtain c cs where c: "s = c # cs" by (cases s) simp_all
  with assms(2) have a: "dropWhile int_space (s @ [LF]) = s @ [LF]" by simp
  from assms(1) obtain xs x where x: "s = xs @ [x]" by (cases s rule: rev_cases) simp_all
  have "dropWhile int_space (rev (s @ [LF])) = dropWhile int_space (rev s)"
    by (simp add: int_space_def LF_def)
  also have "\<dots> = rev s" using x assms(3) by simp
  finally show ?thesis by (simp add: strip_def a)
qed

lemma py_int_py_str: "py_int (py_str n @ [LF]) = Some n"
proof (cases "n < 0")
  case True
  let ?ds = "str_nat (nat (- n))"
  have s: "py_str n = CHR ''-'' # ?ds" using True by (simp add: py_str_def)
  have ne: "?ds \<noteq> []" and all: "list_all decimal_digit ?ds" using str_nat_digits by simp_all
  from ne all have "decimal_digit (last ?ds)" by (simp add: list_all_iff)
  then have "\<not> int_space (last (py_str n))" using s ne by (simp add: decimal_digit_no_space)
  moreover have "\<not> int_space (hd (py_str n))" using s by (simp add: int_space_def)
  ultimately have "strip (py_str n @ [LF]) = py_str n" using s by (intro strip_line) simp_all
  with s True show ?thesis by (simp add: py_int_def int_unsigned_str_nat)
next
  case False
  let ?ds = "str_nat (nat n)"
  have s: "py_str n = ?ds" using False by (simp add: py_str_def)
  have ne: "?ds \<noteq> []" and all: "list_all decimal_digit ?ds" using str_nat_digits by simp_all
  then obtain d ds where d: "?ds = d # ds" by (cases ?ds) simp_all
  from all d have dd: "decimal_digit d" by simp
  from ne all have "decimal_digit (last ?ds)" by (simp add: list_all_iff)
  then have "\<not> int_space (last (py_str n))" using s by (simp add: decimal_digit_no_space)
  moreover have "\<not> int_space (hd (py_str n))" using s d dd by (simp add: decimal_digit_no_space)
  ultimately have st: "strip (py_str n @ [LF]) = py_str n" using s ne by (intro strip_line) simp_all
  have "int_unsigned (d # ds) = Some (nat n)" using int_unsigned_str_nat [of "nat n"] d by simp
  with st s d dd False show ?thesis by (simp add: py_int_def decimal_digit_no_space)
qed

subsection \<open>Fields and lines\<close>

lemma str_split_no_sep: "sep \<notin> set a \<Longrightarrow> str_split sep a = [a]"
  by (induction a) auto

lemma str_split_sep:
  "sep \<notin> set a \<Longrightarrow> str_split sep (a @ sep # rest) = a # str_split sep rest"
  by (induction a) auto

lemma str_split_nonempty: "str_split sep l \<noteq> []"
  by (induction l) (simp_all split: list.splits)

lemma join_str_split: "join [sep] (str_split sep l) = l"
proof (induction l)
  case Nil
  show ?case by simp
next
  case (Cons c l)
  obtain f fs where f: "str_split sep l = f # fs"
    using str_split_nonempty [of sep l] by (cases "str_split sep l") simp_all
  with Cons show ?case by (cases fs) auto
qed

lemma str_split_fields:
  "f \<in> set (str_split sep l) \<Longrightarrow> sep \<notin> set f \<and> set f \<subseteq> set l"
proof (induction l arbitrary: f)
  case Nil
  then show ?case by simp
next
  case (Cons c l)
  obtain g gs where g: "str_split sep l = g # gs"
    using str_split_nonempty [of sep l] by (cases "str_split sep l") simp_all
  show ?case
  proof (cases "c = sep")
    case True
    with Cons show ?thesis by auto
  next
    case False
    with Cons.prems g have "f = c # g \<or> f \<in> set gs" by simp
    then show ?thesis
    proof
      assume "f = c # g"
      moreover from Cons.IH [of g] g have "sep \<notin> set g \<and> set g \<subseteq> set l" by simp
      ultimately show ?thesis using False by auto
    next
      assume "f \<in> set gs"
      with g have "f \<in> set (str_split sep l)" by simp
      from Cons.IH [OF this] show ?thesis by auto
    qed
  qed
qed


lemma universal_newlines_no_CR: "CR \<notin> set (universal_newlines t)"
  by (induction t rule: universal_newlines.induct) (simp_all add: CR_def LF_def)

lemma universal_newlines_row:
  "CR \<notin> set x \<Longrightarrow> universal_newlines (x @ CR # LF # rest) = x @ LF # universal_newlines rest"
proof (induction x)
  case Nil
  show ?case by simp
next
  case (Cons c x)
  then have c: "c \<noteq> CR" and ih: "universal_newlines (x @ CR # LF # rest) = x @ LF # universal_newlines rest"
    by auto
  obtain d ds where d: "x @ CR # LF # rest = d # ds" by (cases x) simp_all
  have "universal_newlines (c # d # ds) = c # universal_newlines (d # ds)" using c by simp
  with d ih show ?case by simp
qed

lemma file_lines_row:
  "LF \<notin> set x \<Longrightarrow> file_lines (x @ LF # rest) = (x @ [LF]) # file_lines rest"
  by (induction x) auto

lemma file_lines_chars:
  "l \<in> set (file_lines t) \<Longrightarrow> set l \<subseteq> set t \<and> LF \<notin> set (butlast l) \<and> l \<noteq> []"
proof (induction t arbitrary: l)
  case Nil
  then show ?case by simp
next
  case (Cons c t)
  show ?case
  proof (cases "c = LF")
    case True
    with Cons.prems have "l = [LF] \<or> l \<in> set (file_lines t)" by simp
    then show ?thesis using Cons.IH True by auto
  next
    case False
    show ?thesis
    proof (cases "file_lines t")
      case Nil
      with Cons.prems False show ?thesis by simp
    next
      case g: (Cons g gs)
      with Cons.prems False have "l = c # g \<or> l \<in> set gs" by simp
      then show ?thesis
      proof
        assume l: "l = c # g"
        from Cons.IH [of g] g have "set g \<subseteq> set t \<and> LF \<notin> set (butlast g) \<and> g \<noteq> []" by simp
        with l False show ?thesis by auto
      next
        assume "l \<in> set gs"
        with g have "l \<in> set (file_lines t)" by simp
        from Cons.IH [OF this] show ?thesis by auto
      qed
    qed
  qed
qed




subsection \<open>A saved list loads as itself\<close>

lemma py_str_chars: "c \<in> set (py_str n) \<Longrightarrow> c = CHR ''-'' \<or> decimal_digit c"
proof -
  assume c: "c \<in> set (py_str n)"
  have d: "\<And>m. c \<in> set (str_nat m) \<Longrightarrow> decimal_digit c"
    using str_nat_digits by (simp add: list_all_iff)
  show ?thesis
  proof (cases "n < 0")
    case True
    with c have "c = CHR ''-'' \<or> c \<in> set (str_nat (nat (- n)))" by (simp add: py_str_def)
    with d show ?thesis by blast
  next
    case False
    with c have "c \<in> set (str_nat (nat n))" by (simp add: py_str_def)
    with d show ?thesis by blast
  qed
qed

lemma py_str_plain: "c \<in> set (py_str n) \<Longrightarrow> \<not> csv_special c"
  by (drule py_str_chars) (auto simp: csv_special_def decimal_digit_def CR_def LF_def)

lemma csv_row_plain:
  assumes "\<not> list_ex csv_special a" and "\<not> list_ex csv_special b"
  shows "csv_row [a, b, py_str n] = (a @ CHR '','' # b @ CHR '','' # py_str n) @ [CR, LF]"
proof -
  have "\<not> list_ex csv_special (py_str n)" using py_str_plain by (auto simp: list_ex_iff)
  with assms show ?thesis by (simp add: csv_row_def csv_field_def)
qed

lemma universal_newlines_rows:
  "\<forall>x \<in> set xs. CR \<notin> set (f x) \<Longrightarrow>
     universal_newlines (concat (map (\<lambda>x. f x @ [CR, LF]) xs)) = concat (map (\<lambda>x. f x @ [LF]) xs)"
  by (induction xs) (simp_all add: universal_newlines_row)

lemma file_lines_rows:
  "\<forall>x \<in> set xs. LF \<notin> set (f x) \<Longrightarrow>
     file_lines (concat (map (\<lambda>x. f x @ [LF]) xs)) = map (\<lambda>x. f x @ [LF]) xs"
  by (induction xs) (simp_all add: file_lines_row)

lemma parse_line_row:
  assumes "CHR '','' \<notin> set a" and "CHR '','' \<notin> set b"
  shows "parse_line ((a @ CHR '','' # b @ CHR '','' # py_str n) @ [LF]) =
     Inr \<lparr>card_number = a, password = b, balance = n\<rparr>"
proof -
  have "CHR '','' \<notin> set (py_str n @ [LF])"
    using py_str_plain [of "CHR '',''" n] by (auto simp: csv_special_def LF_def)
  then have "str_split CHR '','' (py_str n @ [LF]) = [py_str n @ [LF]]"
    by (rule str_split_no_sep)
  with assms have "str_split CHR '','' (a @ CHR '','' # b @ CHR '','' # py_str n @ [LF]) =
      [a, b, py_str n @ [LF]]"
    by (simp add: str_split_sep)
  then show ?thesis by (simp add: parse_line_def py_int_py_str)
qed

lemma save_then_load:
  assumes "\<forall>u \<in> set us. \<not> list_ex csv_special (card_number u) \<and> \<not> list_ex csv_special (password u)"
  shows "load_users (save fs file_name us) file_name = Inr us"
proof -
  let ?f = "\<lambda>u. card_number u @ CHR '','' # password u @ CHR '','' # py_str (balance u)"
  have nl: "c \<notin> set (?f u)" if u: "u \<in> set us" and c: "c = CR \<or> c = LF" for u c
  proof -
    from c have sp: "csv_special c" and co: "c \<noteq> CHR '',''"
      by (auto simp: csv_special_def CR_def LF_def)
    from assms u have "\<not> list_ex csv_special (card_number u)" "\<not> list_ex csv_special (password u)"
      by simp_all
    with sp have "c \<notin> set (card_number u)" "c \<notin> set (password u)"
      by (auto simp: list_ex_iff)
    moreover from sp py_str_plain [of c "balance u"] have "c \<notin> set (py_str (balance u))"
      by blast
    ultimately show ?thesis using co by simp
  qed
  have rows: "map (\<lambda>u. csv_row [card_number u, password u, py_str (balance u)]) us =
      map (\<lambda>u. ?f u @ [CR, LF]) us"
    using assms by (simp add: csv_row_plain)
  have cr: "\<forall>u \<in> set us. CR \<notin> set (?f u)" using nl by blast
  have lf: "\<forall>u \<in> set us. LF \<notin> set (?f u)" using nl by blast
  have lines: "file_lines (universal_newlines (concat (map (\<lambda>u. ?f u @ [CR, LF]) us))) =
      map (\<lambda>u. ?f u @ [LF]) us"
    using universal_newlines_rows [of us ?f, OF cr] file_lines_rows [of us ?f, OF lf] by simp
  have parsed: "map parse_line (map (\<lambda>u. ?f u @ [LF]) us) = map Inr us"
  proof (rule nth_equalityI)
    show "length (map parse_line (map (\<lambda>u. ?f u @ [LF]) us)) = length (map Inr us)" by simp
  next
    fix i assume "i < length (map parse_line (map (\<lambda>u. ?f u @ [LF]) us))"
    then have i: "i < length us" by simp
    then have "us ! i \<in> set us" by simp
    with assms have "CHR '','' \<notin> set (card_number (us ! i))" "CHR '','' \<notin> set (password (us ! i))"
      by (auto simp: list_ex_iff csv_special_def)
    from parse_line_row [OF this, of "balance (us ! i)"] i
    show "map parse_line (map (\<lambda>u. ?f u @ [LF]) us) ! i = map Inr us ! i" by simp
  qed
  have "load_users (save fs file_name us) file_name =
      load_loop (file_lines (universal_newlines (concat
        (map (\<lambda>u. csv_row [card_number u, password u, py_str (balance u)]) us)))) []"
    by (simp add: load_users_def save_def)
  also have "\<dots> = load_loop (map (\<lambda>u. ?f u @ [LF]) us) []"
    by (simp only: rows lines)
  also have "\<dots> = Inr us"
    using parsed by (simp only: load_loop_Inr)
  finally show ?thesis .
qed

subsection \<open>A loaded list is saved without quoting unless it holds a double quote\<close>

lemma loaded_fields:
  assumes "load_users fs file_name = Inr us" and "u \<in> set us"
    and "c \<in> set (card_number u) \<or> c \<in> set (password u)"
  shows "c \<noteq> CHR '','' \<and> c \<noteq> CR \<and> c \<noteq> LF"
proof -
  from assms(1) obtain t where t: "fs file_name = Some t"
    by (cases "fs file_name") (simp_all add: load_users_def)
  let ?lines = "file_lines (universal_newlines t)"
  from assms(1) t have "map parse_line ?lines = map Inr us"
    by (simp add: load_users_def load_loop_Inr)
  then have "set (map parse_line ?lines) = set (map Inr us)" by simp
  with assms(2) have "Inr u \<in> parse_line ` set ?lines" by auto
  then obtain l where l: "l \<in> set ?lines" and p: "parse_line l = Inr u" by auto
  let ?fields = "str_split CHR '','' l"
  from p have len: "length ?fields = 3"
    by (simp add: parse_line_unfold split: if_splits)
  with p have u: "card_number u = ?fields ! 0" "password u = ?fields ! 1"
    by (auto simp: parse_line_unfold split: option.splits)
  from len obtain a b d where f: "?fields = [a, b, d]"
    by (auto simp: length_Suc_conv numeral_3_eq_3)
  from join_str_split [of "CHR '',''" l] f have j: "l = a @ CHR '','' # b @ CHR '','' # d" by simp
  from f u have ab: "card_number u = a" "password u = b" by simp_all
  from f have "a \<in> set ?fields" "b \<in> set ?fields" by simp_all
  then have nosep: "CHR '','' \<notin> set a" "CHR '','' \<notin> set b"
    using str_split_fields by blast+
  from file_lines_chars [OF l] have sub: "set l \<subseteq> set (universal_newlines t)"
    and lf: "LF \<notin> set (butlast l)" by simp_all
  from sub universal_newlines_no_CR [of t] have "CR \<notin> set l" by blast
  with j have nocr: "CR \<notin> set a" "CR \<notin> set b" by simp_all
  from j have "butlast l = a @ CHR '','' # b @ butlast (CHR '','' # d)"
    by (simp add: butlast_append)
  with lf have nolf: "LF \<notin> set a" "LF \<notin> set b" by simp_all
  from assms(3) ab have "c \<in> set a \<or> c \<in> set b" by simp
  with nosep nocr nolf show ?thesis by blast
qed

lemma load_save_load_without_quotes:
  assumes "load_users fs file_name = Inr us"
    and "\<forall>u \<in> set us. CHR 0x22 \<notin> set (card_number u) \<and> CHR 0x22 \<notin> set (password u)"
  shows "load_users (save fs file_name us) file_name = Inr us"
proof (rule save_then_load, intro ballI conjI)
  fix u assume u: "u \<in> set us"
  have "\<not> csv_special c" if "c \<in> set (card_number u) \<or> c \<in> set (password u)" for c
    using loaded_fields [OF assms(1) u that] assms(2) u that
    by (auto simp: csv_special_def)
  then show "\<not> list_ex csv_special (card_number u)" "\<not> list_ex csv_special (password u)"
    by (auto simp: list_ex_iff)
qed

lemma load_save_load_scenario:
  "load_users (save scenario_fs ''users.csv'' scenario_users) ''users.csv'' = Inr scenario_users"
proof (rule load_save_load_without_quotes)
  show "load_users scenario_fs ''users.csv'' = Inr scenario_users"
    by (simp add: scenario_fs_def scenario_users_def load_users_def parse_line_def py_int_def
        strip_def int_unsigned_def decimal_digit_def digit_value_def int_space_def LF_def CR_def)
  show "\<forall>u \<in> set scenario_users. CHR 0x22 \<notin> set (card_number u) \<and> CHR 0x22 \<notin> set (password u)"
    by (simp add: scenario_users_def)
qed

end
